theory Spec2Isabelle
  imports Complex_Main "HOL-Library.Sublist"
begin

section \<open>Characters and strings\<close>

text \<open>
  A Python \<open>str\<close> is modelled as a \<open>string\<close>; a \<open>char\<close> stands for a code point below 256.
  The character tests follow Python 3 on that range: \<open>is_space\<close> is \<open>str.isspace\<close> (the set
  of \<open>\s\<close> and of \<open>str.strip()\<close>), \<open>is_word\<close> is the set of \<open>\w\<close>, \<open>lower_chr\<close> is
  \<open>str.lower()\<close> on one character.
\<close>

definition code :: "char \<Rightarrow> nat" where
  "code c = of_char c"

definition is_upper :: "char \<Rightarrow> bool" where
  "is_upper c = (65 \<le> code c \<and> code c \<le> 90)"

definition is_lower :: "char \<Rightarrow> bool" where
  "is_lower c = (97 \<le> code c \<and> code c \<le> 122)"

definition is_space :: "char \<Rightarrow> bool" where
  "is_space c = ((9 \<le> code c \<and> code c \<le> 13) \<or> (28 \<le> code c \<and> code c \<le> 32)
                 \<or> code c = 133 \<or> code c = 160)"

definition is_word :: "char \<Rightarrow> bool" where
  "is_word c = ((48 \<le> code c \<and> code c \<le> 57) \<or> is_upper c \<or> code c = 95 \<or> is_lower c
                \<or> code c = 170 \<or> code c = 178 \<or> code c = 179 \<or> code c = 181
                \<or> code c = 185 \<or> code c = 186 \<or> (188 \<le> code c \<and> code c \<le> 190)
                \<or> (192 \<le> code c \<and> code c \<le> 214) \<or> (216 \<le> code c \<and> code c \<le> 246)
                \<or> 248 \<le> code c)"

definition lower_chr :: "char \<Rightarrow> char" where
  "lower_chr c = (if is_upper c \<or> (192 \<le> code c \<and> code c \<le> 222 \<and> code c \<noteq> 215)
                  then char_of (code c + 32) else c)"

definition lower :: "string \<Rightarrow> string" where
  "lower s = map lower_chr s"

definition strip :: "string \<Rightarrow> string" where
  "strip s = rev (dropWhile is_space (rev (dropWhile is_space s)))"

text \<open>The slice \<open>text[s:e]\<close> for \<open>0 \<le> s\<close>, \<open>0 \<le> e\<close>.\<close>

definition slice :: "string \<Rightarrow> nat \<Rightarrow> nat \<Rightarrow> string" where
  "slice text s e = take (e - s) (drop s text)"

text \<open>\<open>sep.join(xs)\<close>.\<close>

fun join :: "string \<Rightarrow> string list \<Rightarrow> string" where
  "join sep [] = []"
| "join sep [x] = x"
| "join sep (x # y # ys) = x @ sep @ join sep (y # ys)"

section \<open>The regular expressions of the extractor\<close>

text \<open>
  The fragment of Python's \<open>re\<close> syntax that the patterns of \<open>extract_potential_names\<close> use.
  \<open>Cls\<close> is a bracket expression (or a lone \<open>\s\<close>), \<open>Rep cs n\<close> the greedy repetition of a
  one-character class at least \<open>n\<close> times (\<open>+\<close> is \<open>Rep cs 1\<close>, \<open>*\<close> is \<open>Rep cs 0\<close>, \<open>{2,}\<close> is
  \<open>Rep cs 2\<close>), \<open>Opt\<close> the greedy \<open>?\<close>, \<open>WordB\<close> is \<open>\b\<close>. Non-capturing groups are
  the nesting of the term.
\<close>

datatype citem = AZ | az | WS | Chr char

datatype regex =
    Lit string
  | Cls "citem list"
  | Rep "citem list" nat
  | WordB
  | Seq regex regex
  | Alt regex regex
  | Opt regex

text \<open>
  Every pattern of the extractor has the shape \<open>before(group 1)after\<close> with the one
  capturing group at top level, so a pattern is the triple of the three parts.
\<close>

type_synonym pattern = "regex \<times> regex \<times> regex"

text \<open>One character against one item of a class; \<open>ic\<close> is \<open>re.IGNORECASE\<close>.\<close>

fun citem_ok :: "bool \<Rightarrow> citem \<Rightarrow> char \<Rightarrow> bool" where
  "citem_ok ic AZ c = (is_upper c \<or> (ic \<and> is_lower c))"
| "citem_ok ic az c = (is_lower c \<or> (ic \<and> is_upper c))"
| "citem_ok ic WS c = is_space c"
| "citem_ok ic (Chr d) c = (if ic then lower_chr c = lower_chr d else c = d)"

definition cls_ok :: "bool \<Rightarrow> citem list \<Rightarrow> char \<Rightarrow> bool" where
  "cls_ok ic cs c = list_ex (\<lambda>i. citem_ok ic i c) cs"

text \<open>A literal at position \<open>pos\<close>: the position after it, if it is there.\<close>

fun lit_at :: "bool \<Rightarrow> string \<Rightarrow> string \<Rightarrow> nat \<Rightarrow> nat option" where
  "lit_at ic [] text pos = Some pos"
| "lit_at ic (d # ds) text pos =
     (if pos < length text \<and> citem_ok ic (Chr d) (text ! pos)
      then lit_at ic ds text (Suc pos) else None)"

text \<open>The length of the longest run of class characters from \<open>pos\<close>.\<close>

definition run_len :: "bool \<Rightarrow> citem list \<Rightarrow> string \<Rightarrow> nat \<Rightarrow> nat" where
  "run_len ic cs text pos = length (takeWhile (cls_ok ic cs) (drop pos text))"

definition at_boundary :: "string \<Rightarrow> nat \<Rightarrow> bool" where
  "at_boundary text pos =
     ((0 < pos \<and> pos \<le> length text \<and> is_word (text ! (pos - 1)))
      \<noteq> (pos < length text \<and> is_word (text ! pos)))"

text \<open>
  The backtracking matcher: all the positions at which a match of \<open>r\<close> begun at \<open>pos\<close> can
  end, in the order in which backtracking tries them (greedy: longest repetition first,
  the optional part present first, the alternatives left to right).
\<close>

fun rmatch :: "bool \<Rightarrow> regex \<Rightarrow> string \<Rightarrow> nat \<Rightarrow> nat list" where
  "rmatch ic (Lit ds) text pos = (case lit_at ic ds text pos of None \<Rightarrow> [] | Some e \<Rightarrow> [e])"
| "rmatch ic (Cls cs) text pos =
     (if pos < length text \<and> cls_ok ic cs (text ! pos) then [Suc pos] else [])"
| "rmatch ic (Rep cs n) text pos =
     (let k = run_len ic cs text pos in map (\<lambda>d. pos + d) (rev [n..<Suc k]))"
| "rmatch ic WordB text pos = (if at_boundary text pos then [pos] else [])"
| "rmatch ic (Seq r1 r2) text pos = concat (map (rmatch ic r2 text) (rmatch ic r1 text pos))"
| "rmatch ic (Alt r1 r2) text pos = rmatch ic r1 text pos @ rmatch ic r2 text pos"
| "rmatch ic (Opt r) text pos = rmatch ic r text pos @ [pos]"

text \<open>
  A match object: \<open>(start, end, start of group 1, end of group 1)\<close>. \<open>match_at\<close> is the
  first way, in backtracking order, to match the pattern at \<open>pos\<close>.
\<close>

type_synonym mobj = "nat \<times> nat \<times> nat \<times> nat"

definition match_at :: "bool \<Rightarrow> pattern \<Rightarrow> string \<Rightarrow> nat \<Rightarrow> mobj option" where
  "match_at ic p text pos =
     (case p of (pre, grp, post) \<Rightarrow>
        (case concat (map (\<lambda>gs. concat (map (\<lambda>ge. map (\<lambda>e. (pos, e, gs, ge))
                                                     (rmatch ic post text ge))
                                           (rmatch ic grp text gs)))
                          (rmatch ic pre text pos))
         of [] \<Rightarrow> None | m # _ \<Rightarrow> Some m))"

text \<open>
  \<open>re.finditer\<close>: the leftmost match from \<open>pos\<close> on, then on from its end. (After an empty
  match the scan moves one character on; no pattern here matches the empty string.)
\<close>

function finditer :: "bool \<Rightarrow> pattern \<Rightarrow> string \<Rightarrow> nat \<Rightarrow> mobj list" where
  "finditer ic p text pos =
     (if length text < pos then []
      else (case match_at ic p text pos of
              None \<Rightarrow> finditer ic p text (Suc pos)
            | Some (s, e, gs, ge) \<Rightarrow>
                (s, e, gs, ge) # finditer ic p text (if pos < e then e else Suc pos)))"
  by pat_completeness auto
termination
  by (relation "measure (\<lambda>(ic, p, text, pos). Suc (length text) - pos)") auto

definition group1 :: "string \<Rightarrow> mobj \<Rightarrow> string" where
  "group1 text m = (case m of (s, e, gs, ge) \<Rightarrow> slice text gs ge)"

definition group0 :: "string \<Rightarrow> mobj \<Rightarrow> string" where
  "group0 text m = (case m of (s, e, gs, ge) \<Rightarrow> slice text s e)"

text \<open>\<open>re.findall\<close> of a pattern without groups: the whole matches.\<close>

definition findall :: "bool \<Rightarrow> regex \<Rightarrow> string \<Rightarrow> string list" where
  "findall ic r text = map (group0 text) (finditer ic (Lit [], r, Lit []) text 0)"

text \<open>Helpers to write the patterns: a sequence, and an alternation of words.\<close>

fun seq :: "regex list \<Rightarrow> regex" where
  "seq [] = Lit []"
| "seq [r] = r"
| "seq (r # rs) = Seq r (seq rs)"

fun alts :: "string list \<Rightarrow> regex" where
  "alts [] = Lit []"
| "alts [w] = Lit w"
| "alts (w # ws) = Alt (Lit w) (alts ws)"

section \<open>The candidate extractor\<close>

text \<open>\<open>[A-Z][a-z]+\<close>, the capturing group of all eight patterns.\<close>

definition name_re :: regex where
  "name_re = Seq (Cls [AZ]) (Rep [az] 1)"

definition roles :: regex where
  "roles = alts [''server'', ''waiter'', ''waitress'', ''bartender'', ''host'', ''hostess'']"

definition patterns :: "pattern list" where
  "patterns =
    [(WordB, name_re,
        seq [Rep [WS] 1,
             alts [''was'', ''is'', ''had'', ''did'', ''helped'', ''served'', ''took''], WordB]),
     (seq [roles, Rep [WS] 1], name_re, Lit []),
     (seq [Opt (alts [''our'', ''my'']), Rep [WS] 0, roles, Rep [Chr CHR '','', WS] 1],
        name_re, Lit []),
     (WordB, name_re,
        seq [Opt (seq [Rep [WS] 1, Cls [AZ], Rep [az] 0]), Rep [Chr CHR '','', WS] 1,
             Opt (alts [''our'', ''my'', ''the'']), Rep [WS] 0, roles]),
     (seq [Alt (Seq (Lit ''Thank'') (Opt (Lit ''s'')))
               (seq [Lit ''Thank'', Rep [WS] 1, Lit ''you'']),
           Opt (Lit '',''), Rep [WS] 1],
        name_re, Cls [Chr CHR ''!'', Chr CHR ''.'', WS]),
     (WordB, name_re,
        seq [Rep [WS] 1,
             alts [''provided'', ''delivered'', ''gave'', ''recommended'', ''suggested'']]),
     (seq [Alt (seq [Lit ''served'', Rep [WS] 1, Lit ''by''])
               (seq [Lit ''helped'', Rep [WS] 1, Lit ''by'']),
           Rep [WS] 1],
        name_re, Lit []),
     (WordB, name_re,
        seq [Rep [WS] 1, Opt (seq [Lit ''at'', Rep [WS] 1, Lit ''the'', Rep [WS] 1]),
             alts [''bar'', ''front'', ''host'']])]"

text \<open>\<open>\b[A-Z][a-z]{2,}\b\<close>, searched without \<open>re.IGNORECASE\<close>.\<close>

definition word_re :: regex where
  "word_re = seq [WordB, Cls [AZ], Rep [az] 2, WordB]"

text \<open>The list that each scanned word, lowercased, is looked up in.\<close>

definition common_words :: "string list" where
  "common_words =
    [''The'', ''This'', ''That'', ''They'', ''There'', ''When'', ''Where'', ''What'', ''Who'',
     ''Why'', ''How'', ''And'', ''But'', ''Or'', ''So'', ''Very'', ''Really'', ''Great'', ''Good'',
     ''Bad'', ''Nice'', ''Food'', ''Service'', ''Restaurant'', ''Place'', ''Time'', ''First'',
     ''Last'', ''Next'', ''Best'', ''Worst'', ''Perfect'', ''Amazing'', ''Awesome'', ''Terrible'',
     ''Horrible'', ''Excellent'', ''Outstanding'', ''Wonderful'', ''Fantastic'', ''Incredible'']"

text \<open>The inner loop over the matches of one pattern.\<close>

definition pattern_names :: "pattern \<Rightarrow> string \<Rightarrow> string list" where
  "pattern_names p text =
     filter (\<lambda>name. 3 \<le> length name)
       (map (\<lambda>m. strip (group1 text m)) (finditer True p text 0))"

text \<open>The list \<open>potential_names\<close> as it stands before \<open>list(set(potential_names))\<close>.\<close>

definition potential_names :: "string \<Rightarrow> string list" where
  "potential_names text =
     concat (map (\<lambda>p. pattern_names p text) patterns)
     @ filter (\<lambda>word. lower word \<notin> set common_words) (findall False word_re text)"

text \<open>
  \<open>list(set(xs))\<close> lists each element of \<open>xs\<close> once, in the iteration order of a Python set
  of strings, which depends on the string hashes of the running process and not on the
  order of \<open>xs\<close>. The order is a parameter \<open>so\<close> of the model, and \<open>set_listing so xs\<close> says
  that \<open>so\<close> lists \<open>xs\<close> as a set does.
\<close>

definition set_listing :: "(string list \<Rightarrow> string list) \<Rightarrow> string list \<Rightarrow> bool" where
  "set_listing so xs = (distinct (so xs) \<and> set (so xs) = set xs)"

text \<open>The text is \<open>None\<close> for a missing value (\<open>None\<close> or NaN).\<close>

definition extract_potential_names ::
  "(string list \<Rightarrow> string list) \<Rightarrow> string option \<Rightarrow> string list" where
  "extract_potential_names so text =
     (case text of None \<Rightarrow> []
      | Some t \<Rightarrow> if t = [] then [] else so (potential_names t))"

section \<open>The similarity ratio of the standard library\<close>

text \<open>
  \<open>difflib.SequenceMatcher(None, a, b)\<close>: no junk test, \<open>autojunk\<close> on. \<open>b2j b c\<close> is the
  entry of the table \<open>b2j\<close> for \<open>c\<close>: the ascending indices of \<open>c\<close> in \<open>b\<close>, or nothing for
  a popular character (one that occurs more than \<open>n // 100 + 1\<close> times in a \<open>b\<close> of
  length \<open>n \<ge> 200\<close>), which \<open>__chain_b\<close> deletes from the table.
\<close>

definition b2j :: "string \<Rightarrow> char \<Rightarrow> nat list" where
  "b2j b c =
     (let idxs = filter (\<lambda>j. b ! j = c) [0..<length b]
      in if 200 \<le> length b \<and> length b div 100 + 1 < length idxs then [] else idxs)"

text \<open>A matching block \<open>(i, j, k)\<close>: \<open>a[i:i+k] == b[j:j+k]\<close>.\<close>

type_synonym block = "nat \<times> nat \<times> nat"

text \<open>\<open>j2len.get(j-1, 0)\<close>; the key \<open>-1\<close> is never present.\<close>

definition prev_len :: "(nat \<rightharpoonup> nat) \<Rightarrow> nat \<Rightarrow> nat" where
  "prev_len j2len j =
     (if j = 0 then 0 else (case j2len (j - 1) of None \<Rightarrow> 0 | Some k \<Rightarrow> k))"

text \<open>
  The inner loop of \<open>find_longest_match\<close> over the indices \<open>j\<close> of \<open>a[i]\<close> in \<open>b\<close>; the state
  is \<open>newj2len\<close> and the best block so far.
\<close>

fun scan_js ::
  "nat \<Rightarrow> nat \<Rightarrow> nat \<Rightarrow> (nat \<rightharpoonup> nat) \<Rightarrow> nat list
    \<Rightarrow> (nat \<rightharpoonup> nat) \<times> block \<Rightarrow> (nat \<rightharpoonup> nat) \<times> block" where
  "scan_js i blo bhi j2len [] st = st"
| "scan_js i blo bhi j2len (j # js) (newj2len, besti, bestj, bestsize) =
     (if j < blo then scan_js i blo bhi j2len js (newj2len, besti, bestj, bestsize)
      else if bhi \<le> j then (newj2len, besti, bestj, bestsize)
      else (let k = prev_len j2len j + 1
            in scan_js i blo bhi j2len js
                 (newj2len(j \<mapsto> k),
                  if bestsize < k then (Suc i - k, Suc j - k, k)
                  else (besti, bestj, bestsize))))"

text \<open>The outer loop \<open>for i in range(alo, ahi)\<close>, from \<open>i\<close> on.\<close>

function scan_is ::
  "string \<Rightarrow> string \<Rightarrow> nat \<Rightarrow> nat \<Rightarrow> nat \<Rightarrow> nat \<Rightarrow> (nat \<rightharpoonup> nat) \<times> block \<Rightarrow> block" where
  "scan_is a b ahi blo bhi i (j2len, best) =
     (if i < ahi
      then scan_is a b ahi blo bhi (Suc i)
             (scan_js i blo bhi j2len (b2j b (a ! i)) (Map.empty, best))
      else best)"
  by pat_completeness auto
termination
  by (relation "measure (\<lambda>(a, b, ahi, blo, bhi, i, st). ahi - i)") auto

text \<open>
  The two loops that extend the best block by equal elements on each end. (The two
  further loops of the source extend it by junk, and there is no junk here.)
\<close>

function extend_left :: "string \<Rightarrow> string \<Rightarrow> nat \<Rightarrow> nat \<Rightarrow> block \<Rightarrow> block" where
  "extend_left a b alo blo (besti, bestj, bestsize) =
     (if alo < besti \<and> blo < bestj \<and> a ! (besti - 1) = b ! (bestj - 1)
      then extend_left a b alo blo (besti - 1, bestj - 1, bestsize + 1)
      else (besti, bestj, bestsize))"
  by pat_completeness auto
termination
  by (relation "measure (\<lambda>(a, b, alo, blo, besti, bestj, bestsize). besti)") auto

function extend_right :: "string \<Rightarrow> string \<Rightarrow> nat \<Rightarrow> nat \<Rightarrow> block \<Rightarrow> block" where
  "extend_right a b ahi bhi (besti, bestj, bestsize) =
     (if besti + bestsize < ahi \<and> bestj + bestsize < bhi
         \<and> a ! (besti + bestsize) = b ! (bestj + bestsize)
      then extend_right a b ahi bhi (besti, bestj, bestsize + 1)
      else (besti, bestj, bestsize))"
  by pat_completeness auto
termination
  by (relation "measure (\<lambda>(a, b, ahi, bhi, besti, bestj, bestsize). ahi - (besti + bestsize))")
     auto

definition find_longest_match ::
  "string \<Rightarrow> string \<Rightarrow> nat \<Rightarrow> nat \<Rightarrow> nat \<Rightarrow> nat \<Rightarrow> block" where
  "find_longest_match a b alo ahi blo bhi =
     extend_right a b ahi bhi
       (extend_left a b alo blo
          (scan_is a b ahi blo bhi alo (Map.empty, (alo, blo, 0))))"

text \<open>
  \<open>get_matching_blocks\<close> on the window \<open>a[alo:ahi]\<close>, \<open>b[blo:bhi]\<close>. The source keeps the
  windows still to do on a stack and sorts the blocks at the end; here the blocks to the
  left, the longest block and the blocks to the right come in that sorted order.
\<close>

function matching_blocks ::
  "string \<Rightarrow> string \<Rightarrow> nat \<Rightarrow> nat \<Rightarrow> nat \<Rightarrow> nat \<Rightarrow> block list" where
  "matching_blocks a b alo ahi blo bhi =
     (case find_longest_match a b alo ahi blo bhi of (i, j, k) \<Rightarrow>
        if k = 0 then []
        else (if alo < i \<and> blo < j then matching_blocks a b alo i blo j else [])
             @ [(i, j, k)]
             @ (if i + k < ahi \<and> j + k < bhi then matching_blocks a b (i + k) ahi (j + k) bhi
                else []))"
  by pat_completeness auto

text \<open>\<open>ratio()\<close>; the quotient \<open>2.0 * matches / length\<close> is kept exact, as a rational.\<close>

definition ratio :: "string \<Rightarrow> string \<Rightarrow> rat" where
  "ratio a b =
     (let matches = sum_list (map (\<lambda>(i, j, k). k)
                                  (matching_blocks a b 0 (length a) 0 (length b)));
          len = length a + length b
      in if len \<noteq> 0 then 2 * of_nat matches / of_nat len else 1)"

definition similarity_score :: "string \<Rightarrow> string \<Rightarrow> rat" where
  "similarity_score a b = ratio (lower a) (lower b)"

section \<open>The roster resolver\<close>

text \<open>
  An entry of \<open>employee_dict\<close>, and an entry of the list that \<open>match_employee_to_review\<close>
  returns. A score is the exact value of the ratio; the comparisons of the source are on
  the doubles nearest to these values, which compare the same way for all strings of
  fewer than \<open>2^25\<close> characters. The default \<open>min_similarity\<close> \<open>0.8\<close> is \<open>4 / 5\<close>.
\<close>

record employee_info =
  full_name :: string
  first_name :: string
  restaurants :: "string list"

record match_result =
  potential_name :: string
  matched_employee :: string
  confidence :: rat

text \<open>The words that the resolver skips.\<close>

definition skip_words :: "string list" where
  "skip_words =
    [''and'', ''the'', ''was'', ''had'', ''our'', ''very'', ''great'', ''good'', ''food'',
     ''service'', ''place'', ''time'', ''first'', ''last'', ''next'', ''best'', ''nice'', ''said'',
     ''just'', ''that'', ''this'', ''they'', ''with'', ''were'', ''have'', ''been'', ''will'',
     ''would'', ''could'', ''should'', ''made'', ''came'', ''went'', ''got'', ''get'', ''one'',
     ''two'', ''all'', ''but'', ''not'', ''can'', ''did'', ''has'', ''are'', ''for'', ''you'',
     ''your'', ''his'', ''her'', ''him'', ''she'', ''he'', ''we'', ''us'', ''me'', ''my'', ''so'',
     ''if'', ''or'', ''an'', ''as'', ''at'', ''be'', ''by'', ''do'', ''in'', ''is'', ''it'', ''no'',
     ''of'', ''on'', ''to'', ''up'', ''clearly'']"

text \<open>
  \<open>employee_dict\<close> is the list of its items in iteration (insertion) order. The state of
  the loop over it is \<open>(best_match, best_score, best_employee_info)\<close>.
\<close>

type_synonym roster = "(string \<times> employee_info) list"

type_synonym best = "string option \<times> rat \<times> employee_info option"

fun best_employee :: "string \<Rightarrow> string \<Rightarrow> rat \<Rightarrow> roster \<Rightarrow> best \<Rightarrow> best" where
  "best_employee potential restaurant_name min_similarity [] st = st"
| "best_employee potential restaurant_name min_similarity ((first_name_key, info) # rest)
       (best_match, best_score, best_info) =
     (if restaurant_name \<notin> set (restaurants info)
      then best_employee potential restaurant_name min_similarity rest
             (best_match, best_score, best_info)
      else (let score = similarity_score potential (first_name info)
            in if best_score < score \<and> min_similarity \<le> score
               then best_employee potential restaurant_name min_similarity rest
                      (Some (full_name info), score, Some info)
               else best_employee potential restaurant_name min_similarity rest
                      (best_match, best_score, best_info)))"

text \<open>The loop over the potential names; \<open>if best_match:\<close> holds for a non-empty string.\<close>

fun match_names :: "string \<Rightarrow> roster \<Rightarrow> rat \<Rightarrow> string list \<Rightarrow> match_result list" where
  "match_names restaurant_name employee_dict min_similarity [] = []"
| "match_names restaurant_name employee_dict min_similarity (potential # rest) =
     (if lower potential \<in> set skip_words
      then match_names restaurant_name employee_dict min_similarity rest
      else (case best_employee potential restaurant_name min_similarity employee_dict
                   (None, 0, None) of
              (None, best_score, best_info) \<Rightarrow>
                match_names restaurant_name employee_dict min_similarity rest
            | (Some best_match, best_score, best_info) \<Rightarrow>
                if best_match \<noteq> []
                then \<lparr>potential_name = potential, matched_employee = best_match,
                       confidence = best_score\<rparr>
                     # match_names restaurant_name employee_dict min_similarity rest
                else match_names restaurant_name employee_dict min_similarity rest))"

definition match_employee_to_review ::
  "(string list \<Rightarrow> string list) \<Rightarrow> string option \<Rightarrow> string \<Rightarrow> roster \<Rightarrow> rat
    \<Rightarrow> match_result list" where
  "match_employee_to_review so review_text restaurant_name employee_dict min_similarity =
     match_names restaurant_name employee_dict min_similarity
       (extract_potential_names so review_text)"

text \<open>
  Two predicates to state properties with: an entry of the roster that is assigned to a
  restaurant, and a candidate for which the loop over the potential names appends a match.
\<close>

definition works_at :: "string \<Rightarrow> string \<times> employee_info \<Rightarrow> bool" where
  "works_at restaurant_name entry = (restaurant_name \<in> set (restaurants (snd entry)))"

definition accepted :: "string \<Rightarrow> roster \<Rightarrow> rat \<Rightarrow> string \<Rightarrow> bool" where
  "accepted restaurant_name roster min_similarity potential =
     (lower potential \<notin> set skip_words
      \<and> (case best_employee potential restaurant_name min_similarity roster (None, 0, None) of
           (None, s, bi) \<Rightarrow> False
         | (Some n, s, bi) \<Rightarrow> n \<noteq> []))"

section \<open>The annotation pass\<close>

text \<open>
  \<open>f"{x:.2f}"\<close>: the double nearest to \<open>x\<close>, rounded to two decimals, ties of its exact
  value to even. \<open>to_double\<close> rounds a rational to 53 significant bits (the doubles in the
  normal range).
\<close>

definition round_half_even :: "rat \<Rightarrow> int" where
  "round_half_even x =
     (let f = \<lfloor>x\<rfloor>; d = x - of_int f
      in if d < 1 / 2 then f else if 1 / 2 < d then f + 1 else if even f then f else f + 1)"

fun bit_length :: "nat \<Rightarrow> nat" where
  "bit_length n = (if n = 0 then 0 else Suc (bit_length (n div 2)))"

definition scale2 :: "rat \<Rightarrow> int \<Rightarrow> rat" where
  "scale2 x k = (if 0 \<le> k then x * 2 ^ nat k else x / 2 ^ nat (- k))"

definition to_double :: "rat \<Rightarrow> rat" where
  "to_double x =
     (if x = 0 then 0
      else (let (p, q) = quotient_of \<bar>x\<bar>;
                k0 = 52 + int (bit_length (nat q)) - int (bit_length (nat p));
                k = (if 2 ^ 52 \<le> scale2 \<bar>x\<bar> k0 then k0 else k0 + 1);
                m = scale2 (of_int (round_half_even (scale2 \<bar>x\<bar> k))) (- k)
            in if x < 0 then - m else m))"

definition digit :: "nat \<Rightarrow> char" where
  "digit d = char_of (48 + d)"

fun digits :: "nat \<Rightarrow> string" where
  "digits n = (if n < 10 then [digit n] else digits (n div 10) @ [digit (n mod 10)])"

definition format_2f :: "rat \<Rightarrow> string" where
  "format_2f x =
     (let d = to_double x; n = nat (round_half_even (100 * \<bar>d\<bar>))
      in (if d < 0 \<and> 0 < n then ''-'' else [])
         @ digits (n div 100) @ ''.'' @ [digit (n div 10 mod 10), digit (n mod 10)])"

text \<open>
  A row of the reviews table. \<open>comment\<close> is \<open>None\<close> for a missing value,
  \<open>published_datetime\<close> is \<open>None\<close> for \<open>NaT\<close>, and each of the three output columns is
  \<open>None\<close> as long as the table does not have the column.
\<close>

record review =
  restaurant :: string
  comment :: "string option"
  published_datetime :: "int option"
  mentioned_employees :: "string option"
  employee_matches :: "string option"
  employee_confidence :: "string option"

text \<open>\<open>recent_mask\<close>; a comparison with \<open>NaT\<close> is false.\<close>

definition recent :: "int \<Rightarrow> review \<Rightarrow> bool" where
  "recent six_months_ago row =
     (case published_datetime row of None \<Rightarrow> False | Some t \<Rightarrow> six_months_ago \<le> t)"

text \<open>
  The body of the loop over the recent rows: \<open>row\<close> is read from \<open>recent_df\<close>, the copy of
  the rows of \<open>df\<close> taken before the columns are added, and \<open>df.at[idx, ...]\<close> writes to the
  table \<open>acc\<close>. (The counter \<open>matches_found\<close> is only printed.)
\<close>

definition annotate_row ::
  "(string list \<Rightarrow> string list) \<Rightarrow> roster \<Rightarrow> review list \<Rightarrow> review list \<Rightarrow> nat
    \<Rightarrow> review list" where
  "annotate_row so employee_dict df acc idx =
     (let row = df ! idx;
          comment_matches = match_employee_to_review so (comment row) (restaurant row)
                              employee_dict (4 / 5)
      in if comment_matches \<noteq> []
         then acc[idx := (acc ! idx)
                \<lparr>mentioned_employees := Some (join ''; '' (map potential_name comment_matches)),
                 employee_matches := Some (join ''; '' (map matched_employee comment_matches)),
                 employee_confidence :=
                   Some (join ''; '' (map (\<lambda>m. format_2f (confidence m)) comment_matches))\<rparr>]
         else acc)"

text \<open>
  \<open>six_months_ago\<close> is \<open>pd.Timestamp.now() - pd.DateOffset(months=6)\<close>, a parameter. The
  table is the list of its rows, the index of a row its position.
\<close>

definition add_employee_matches_to_dataframe ::
  "(string list \<Rightarrow> string list) \<Rightarrow> int \<Rightarrow> review list \<Rightarrow> roster \<Rightarrow> review list" where
  "add_employee_matches_to_dataframe so six_months_ago df employee_dict =
     (if employee_dict = [] then df
      else (let recent_idx = filter (\<lambda>idx. recent six_months_ago (df ! idx)) [0..<length df];
                df1 = map (\<lambda>row. row\<lparr>mentioned_employees := Some [],
                                        employee_matches := Some [],
                                        employee_confidence := Some []\<rparr>) df
            in foldl (annotate_row so employee_dict df) df1 recent_idx))"

text \<open>The row at an index of the loop after the body of the loop.\<close>

definition annotated ::
  "(string list \<Rightarrow> string list) \<Rightarrow> roster \<Rightarrow> review \<Rightarrow> review \<Rightarrow> review" where
  "annotated so employee_dict row r =
     (let comment_matches = match_employee_to_review so (comment row) (restaurant row)
                              employee_dict (4 / 5)
      in if comment_matches \<noteq> []
         then r\<lparr>mentioned_employees := Some (join ''; '' (map potential_name comment_matches)),
                employee_matches := Some (join ''; '' (map matched_employee comment_matches)),
                employee_confidence :=
                  Some (join ''; '' (map (\<lambda>m. format_2f (confidence m)) comment_matches))\<rparr>
         else r)"

section \<open>The matching core of process_takeout.py\<close>

text \<open>
  \<open>scripts/process_takeout.py\<close> defines \<open>similarity_score\<close>, \<open>extract_potential_names\<close> and
  \<open>match_employee_to_review\<close> a second time. These are the definitions of that file, with
  the prefix \<open>pt_\<close>; the regular expressions, the set order and the similarity ratio are
  those of the standard library, as above.
\<close>

definition pt_similarity_score :: "string \<Rightarrow> string \<Rightarrow> rat" where
  "pt_similarity_score a b = ratio (lower a) (lower b)"

definition pt_patterns :: "pattern list" where
  "pt_patterns =
    [(WordB, name_re,
        seq [Rep [WS] 1,
             alts [''was'', ''is'', ''had'', ''did'', ''helped'', ''served'', ''took''], WordB]),
     (seq [roles, Rep [WS] 1], name_re, Lit []),
     (seq [Opt (alts [''our'', ''my'']), Rep [WS] 0, roles, Rep [Chr CHR '','', WS] 1],
        name_re, Lit []),
     (WordB, name_re,
        seq [Opt (seq [Rep [WS] 1, Cls [AZ], Rep [az] 0]), Rep [Chr CHR '','', WS] 1,
             Opt (alts [''our'', ''my'', ''the'']), Rep [WS] 0, roles]),
     (seq [Alt (Seq (Lit ''Thank'') (Opt (Lit ''s'')))
               (seq [Lit ''Thank'', Rep [WS] 1, Lit ''you'']),
           Opt (Lit '',''), Rep [WS] 1],
        name_re, Cls [Chr CHR ''!'', Chr CHR ''.'', WS]),
     (WordB, name_re,
        seq [Rep [WS] 1,
             alts [''provided'', ''delivered'', ''gave'', ''recommended'', ''suggested'']]),
     (seq [Alt (seq [Lit ''served'', Rep [WS] 1, Lit ''by''])
               (seq [Lit ''helped'', Rep [WS] 1, Lit ''by'']),
           Rep [WS] 1],
        name_re, Lit []),
     (WordB, name_re,
        seq [Rep [WS] 1, Opt (seq [Lit ''at'', Rep [WS] 1, Lit ''the'', Rep [WS] 1]),
             alts [''bar'', ''front'', ''host'']])]"

definition pt_common_words :: "string list" where
  "pt_common_words =
    [''The'', ''This'', ''That'', ''They'', ''There'', ''When'', ''Where'', ''What'', ''Who'',
     ''Why'', ''How'', ''And'', ''But'', ''Or'', ''So'', ''Very'', ''Really'', ''Great'', ''Good'',
     ''Bad'', ''Nice'', ''Food'', ''Service'', ''Restaurant'', ''Place'', ''Time'', ''First'',
     ''Last'', ''Next'', ''Best'', ''Worst'', ''Perfect'', ''Amazing'', ''Awesome'', ''Terrible'',
     ''Horrible'', ''Excellent'', ''Outstanding'', ''Wonderful'', ''Fantastic'', ''Incredible'']"

definition pt_pattern_names :: "pattern \<Rightarrow> string \<Rightarrow> string list" where
  "pt_pattern_names p text =
     filter (\<lambda>name. 3 \<le> length name)
       (map (\<lambda>m. strip (group1 text m)) (finditer True p text 0))"

definition pt_potential_names :: "string \<Rightarrow> string list" where
  "pt_potential_names text =
     concat (map (\<lambda>p. pt_pattern_names p text) pt_patterns)
     @ filter (\<lambda>word. lower word \<notin> set pt_common_words) (findall False word_re text)"

definition pt_extract_potential_names ::
  "(string list \<Rightarrow> string list) \<Rightarrow> string option \<Rightarrow> string list" where
  "pt_extract_potential_names so text =
     (case text of None \<Rightarrow> []
      | Some t \<Rightarrow> if t = [] then [] else so (pt_potential_names t))"

definition pt_skip_words :: "string list" where
  "pt_skip_words =
    [''and'', ''the'', ''was'', ''had'', ''our'', ''very'', ''great'', ''good'', ''food'',
     ''service'', ''place'', ''time'', ''first'', ''last'', ''next'', ''best'', ''nice'', ''said'',
     ''just'', ''that'', ''this'', ''they'', ''with'', ''were'', ''have'', ''been'', ''will'',
     ''would'', ''could'', ''should'', ''made'', ''came'', ''went'', ''got'', ''get'', ''one'',
     ''two'', ''all'', ''but'', ''not'', ''can'', ''did'', ''has'', ''are'', ''for'', ''you'',
     ''your'', ''his'', ''her'', ''him'', ''she'', ''he'', ''we'', ''us'', ''me'', ''my'', ''so'',
     ''if'', ''or'', ''an'', ''as'', ''at'', ''be'', ''by'', ''do'', ''in'', ''is'', ''it'', ''no'',
     ''of'', ''on'', ''to'', ''up'', ''clearly'']"

fun pt_best_employee :: "string \<Rightarrow> string \<Rightarrow> rat \<Rightarrow> roster \<Rightarrow> best \<Rightarrow> best" where
  "pt_best_employee potential restaurant_name min_similarity [] st = st"
| "pt_best_employee potential restaurant_name min_similarity ((first_name_key, info) # rest)
       (best_match, best_score, best_info) =
     (if restaurant_name \<notin> set (restaurants info)
      then pt_best_employee potential restaurant_name min_similarity rest
             (best_match, best_score, best_info)
      else (let score = pt_similarity_score potential (first_name info)
            in if best_score < score \<and> min_similarity \<le> score
               then pt_best_employee potential restaurant_name min_similarity rest
                      (Some (full_name info), score, Some info)
               else pt_best_employee potential restaurant_name min_similarity rest
                      (best_match, best_score, best_info)))"

fun pt_match_names :: "string \<Rightarrow> roster \<Rightarrow> rat \<Rightarrow> string list \<Rightarrow> match_result list" where
  "pt_match_names restaurant_name employee_dict min_similarity [] = []"
| "pt_match_names restaurant_name employee_dict min_similarity (potential # rest) =
     (if lower potential \<in> set pt_skip_words
      then pt_match_names restaurant_name employee_dict min_similarity rest
      else (case pt_best_employee potential restaurant_name min_similarity employee_dict
                   (None, 0, None) of
              (None, best_score, best_info) \<Rightarrow>
                pt_match_names restaurant_name employee_dict min_similarity rest
            | (Some best_match, best_score, best_info) \<Rightarrow>
                if best_match \<noteq> []
                then \<lparr>potential_name = potential, matched_employee = best_match,
                       confidence = best_score\<rparr>
                     # pt_match_names restaurant_name employee_dict min_similarity rest
                else pt_match_names restaurant_name employee_dict min_similarity rest))"

definition pt_match_employee_to_review ::
  "(string list \<Rightarrow> string list) \<Rightarrow> string option \<Rightarrow> string \<Rightarrow> roster \<Rightarrow> rat
    \<Rightarrow> match_result list" where
  "pt_match_employee_to_review so review_text restaurant_name employee_dict min_similarity =
     pt_match_names restaurant_name employee_dict min_similarity
       (pt_extract_potential_names so review_text)"

section \<open>Example rosters and listings\<close>

definition roster_two :: roster where
  "roster_two =
     [(''jacob'', \<lparr>full_name = ''Jacob Smith'', first_name = ''Jacob'',
                   restaurants = [''Grackle'']\<rparr>),
      (''jakob'', \<lparr>full_name = ''Jakob Jones'', first_name = ''Jakob'',
                   restaurants = [''Margie's Kitchen & Cocktails'']\<rparr>)]"

definition roster_the :: roster where
  "roster_the =
     [(''jacob'', \<lparr>full_name = ''Jacob Smith'', first_name = ''Jacob'',
                   restaurants = [''Grackle'']\<rparr>),
      (''the'', \<lparr>full_name = ''The Rock'', first_name = ''The'',
                 restaurants = [''Grackle'']\<rparr>)]"

definition roster_reilly :: roster where
  "roster_reilly =
     [(''reilly'', \<lparr>full_name = ''Reilly Smith'', first_name = ''Reilly'',
                    restaurants = [''Grackle'']\<rparr>)]"

definition roster_jm :: roster where
  "roster_jm =
     [(''jacob'', \<lparr>full_name = ''Jacob Smith'', first_name = ''Jacob'',
                   restaurants = [''Grackle'']\<rparr>),
      (''maria'', \<lparr>full_name = ''Maria Lopez'', first_name = ''Maria'',
                   restaurants = [''Grackle'']\<rparr>)]"

definition review_jacob :: review where
  "review_jacob =
     \<lparr>restaurant = ''Grackle'', comment = Some ''Jacob was excellent tonight!'',
      published_datetime = Some 150, mentioned_employees = None, employee_matches = None,
      employee_confidence = None\<rparr>"

text \<open>A listing of a set in the reverse order of the last occurrences.\<close>

definition reversed_listing :: "string list \<Rightarrow> string list" where
  "reversed_listing xs = rev (remdups xs)"

section \<open>Termination of the block search\<close>

text \<open>
  The invariant of the two loops of \<open>find_longest_match\<close>: the lengths in \<open>j2len\<close> and the
  best block stay inside the window.
\<close>

definition lens_ok :: "nat \<Rightarrow> nat \<Rightarrow> nat \<Rightarrow> (nat \<rightharpoonup> nat) \<Rightarrow> bool" where
  "lens_ok bound blo bhi m =
     (\<forall>j k. m j = Some k \<longrightarrow> k \<le> bound \<and> blo \<le> j \<and> j < bhi \<and> k \<le> Suc j - blo)"

definition in_window :: "nat \<Rightarrow> nat \<Rightarrow> nat \<Rightarrow> nat \<Rightarrow> block \<Rightarrow> bool" where
  "in_window alo ahi blo bhi m =
     (case m of (i, j, k) \<Rightarrow> alo \<le> i \<and> i + k \<le> ahi \<and> blo \<le> j \<and> j + k \<le> bhi)"

declare scan_is.simps [simp del] extend_left.simps [simp del] extend_right.simps [simp del]
  finditer.simps [simp del] digits.simps [simp del] bit_length.simps [simp del]

lemma lens_ok_empty: "lens_ok bound blo bhi Map.empty"
  by (simp add: lens_ok_def)

lemma prev_len_le:
  assumes "lens_ok bound blo bhi m" and "blo \<le> j"
  shows "prev_len m j \<le> bound \<and> prev_len m j \<le> j - blo"
proof (cases "j = 0")
  case True
  then show ?thesis by (simp add: prev_len_def)
next
  case False
  show ?thesis
  proof (cases "m (j - 1)")
    case None
    then show ?thesis using False by (simp add: prev_len_def)
  next
    case (Some k)
    with assms(1) have "k \<le> bound \<and> blo \<le> j - 1 \<and> k \<le> Suc (j - 1) - blo"
      unfolding lens_ok_def by blast
    then show ?thesis using False Some by (auto simp: prev_len_def)
  qed
qed

lemma scan_js_inv:
  assumes "lens_ok (i - alo) blo bhi j2len" and "alo \<le> i" and "i < ahi"
    and "lens_ok (Suc i - alo) blo bhi new" and "in_window alo ahi blo bhi best"
    and "scan_js i blo bhi j2len js (new, best) = (new', best')"
  shows "lens_ok (Suc i - alo) blo bhi new' \<and> in_window alo ahi blo bhi best'"
  using assms(4-6)
proof (induction js arbitrary: new best)
  case Nil
  then show ?case by simp
next
  case (Cons j js)
  obtain bi bj bs where best: "best = (bi, bj, bs)" by (cases best)
  show ?case
  proof (cases "j < blo")
    case True
    with Cons best show ?thesis by simp
  next
    case lo: False
    show ?thesis
    proof (cases "bhi \<le> j")
      case True
      with Cons lo best show ?thesis by simp
    next
      case hi: False
      define k where "k = prev_len j2len j + 1"
      have pl: "prev_len j2len j \<le> i - alo \<and> prev_len j2len j \<le> j - blo"
        using prev_len_le[OF assms(1)] lo by simp
      have k1: "k \<le> Suc i - alo" and k2: "k \<le> Suc j - blo"
        using pl assms(2) lo by (auto simp: k_def)
      have new_ok: "lens_ok (Suc i - alo) blo bhi (new(j \<mapsto> k))"
        using Cons.prems(1) k1 k2 lo hi by (auto simp: lens_ok_def)
      have best_ok: "in_window alo ahi blo bhi
                       (if bs < k then (Suc i - k, Suc j - k, k) else (bi, bj, bs))"
        using Cons.prems(2) best k1 k2 assms(2,3) lo hi by (auto simp: in_window_def)
      have "scan_js i blo bhi j2len js
              (new(j \<mapsto> k), if bs < k then (Suc i - k, Suc j - k, k) else (bi, bj, bs))
            = (new', best')"
        using Cons.prems(3) lo hi unfolding best k_def by (simp add: Let_def split del: if_split cong: if_cong)
      from Cons.IH[OF new_ok best_ok this] show ?thesis .
    qed
  qed
qed

lemma scan_is_inv:
  assumes "lens_ok (i - alo) blo bhi j2len" and "alo \<le> i" and "i \<le> ahi"
    and "in_window alo ahi blo bhi best"
  shows "in_window alo ahi blo bhi (scan_is a b ahi blo bhi i (j2len, best))"
  using assms
proof (induction a b ahi blo bhi i "(j2len, best)" arbitrary: j2len best rule: scan_is.induct)
  case (1 a b ahi blo bhi i j2len best)
  show ?case
  proof (cases "i < ahi")
    case False
    then show ?thesis using "1.prems" by (subst scan_is.simps) simp
  next
    case True
    obtain new' best' where
      st: "scan_js i blo bhi j2len (b2j b (a ! i)) (Map.empty, best) = (new', best')"
      by (cases "scan_js i blo bhi j2len (b2j b (a ! i)) (Map.empty, best)")
    have inv: "lens_ok (Suc i - alo) blo bhi new' \<and> in_window alo ahi blo bhi best'"
      using scan_js_inv[OF "1.prems"(1,2) True lens_ok_empty "1.prems"(4) st] .
    have "in_window alo ahi blo bhi (scan_is a b ahi blo bhi (Suc i) (new', best'))"
      using "1.hyps"[OF True st] inv "1.prems"(2) True by simp
    then show ?thesis using True st by (subst scan_is.simps) simp
  qed
qed

lemma extend_left_inv:
  "in_window alo ahi blo bhi m \<Longrightarrow> in_window alo ahi blo bhi (extend_left a b alo blo m)"
proof (induction a b alo blo m rule: extend_left.induct)
  case (1 a b alo blo besti bestj bestsize)
  show ?case
  proof (cases "alo < besti \<and> blo < bestj \<and> a ! (besti - 1) = b ! (bestj - 1)")
    case True
    have "in_window alo ahi blo bhi (besti - 1, bestj - 1, bestsize + 1)"
      using "1.prems" True by (auto simp: in_window_def)
    from "1.IH"[OF True this] show ?thesis using True by (subst extend_left.simps) simp
  next
    case False
    then show ?thesis using "1.prems" by (subst extend_left.simps) auto
  qed
qed

lemma extend_right_inv:
  "in_window alo ahi blo bhi m \<Longrightarrow> in_window alo ahi blo bhi (extend_right a b ahi bhi m)"
proof (induction a b ahi bhi m rule: extend_right.induct)
  case (1 a b ahi bhi besti bestj bestsize)
  show ?case
  proof (cases "besti + bestsize < ahi \<and> bestj + bestsize < bhi
                 \<and> a ! (besti + bestsize) = b ! (bestj + bestsize)")
    case True
    have "in_window alo ahi blo bhi (besti, bestj, bestsize + 1)"
      using "1.prems" True by (auto simp: in_window_def)
    from "1.IH"[OF True this] show ?thesis using True by (subst extend_right.simps) simp
  next
    case False
    then show ?thesis using "1.prems" by (subst extend_right.simps) auto
  qed
qed

lemma find_longest_match_in_window:
  assumes "alo \<le> ahi" and "blo \<le> bhi"
  shows "in_window alo ahi blo bhi (find_longest_match a b alo ahi blo bhi)"
proof -
  have "lens_ok (alo - alo) blo bhi Map.empty" by (rule lens_ok_empty)
  moreover have "in_window alo ahi blo bhi (alo, blo, 0)"
    using assms by (simp add: in_window_def)
  ultimately have "in_window alo ahi blo bhi (scan_is a b ahi blo bhi alo (Map.empty, (alo, blo, 0)))"
    using assms(1) by (intro scan_is_inv) auto
  then show ?thesis
    unfolding find_longest_match_def by (intro extend_right_inv extend_left_inv)
qed

text \<open>On an empty window nothing is found.\<close>

lemma scan_js_no_b:
  "bhi \<le> blo \<Longrightarrow> scan_js i blo bhi j2len js (new, best) = (new, best)"
proof (induction js)
  case Nil
  then show ?case by simp
next
  case (Cons j js)
  obtain bi bj bs where "best = (bi, bj, bs)" by (cases best)
  with Cons show ?case by auto
qed

lemma scan_is_no_b:
  "bhi \<le> blo \<Longrightarrow> scan_is a b ahi blo bhi i (j2len, best) = best"
proof (induction a b ahi blo bhi i "(j2len, best)" arbitrary: j2len rule: scan_is.induct)
  case (1 a b ahi blo bhi i j2len)
  show ?case
  proof (cases "i < ahi")
    case True
    have "scan_is a b ahi blo bhi (Suc i) (Map.empty, best) = best"
      using "1.hyps"[OF True _ "1.prems"] "1.prems" by (simp add: scan_js_no_b)
    then show ?thesis using True "1.prems" by (subst scan_is.simps) (simp add: scan_js_no_b)
  next
    case False
    then show ?thesis by (subst scan_is.simps) simp
  qed
qed

lemma scan_is_no_a:
  "ahi \<le> i \<Longrightarrow> scan_is a b ahi blo bhi i (j2len, best) = best"
  by (subst scan_is.simps) simp

lemma find_longest_match_empty:
  assumes "ahi \<le> alo \<or> bhi \<le> blo"
  shows "find_longest_match a b alo ahi blo bhi = (alo, blo, 0)"
proof -
  have "scan_is a b ahi blo bhi alo (Map.empty, (alo, blo, 0)) = (alo, blo, 0)"
    using assms by (auto simp: scan_is_no_b scan_is_no_a)
  moreover have "extend_left a b alo blo (alo, blo, 0) = (alo, blo, 0)"
    by (subst extend_left.simps) simp
  moreover have "extend_right a b ahi bhi (alo, blo, 0) = (alo, blo, 0)"
    using assms by (subst extend_right.simps) auto
  ultimately show ?thesis
    by (simp add: find_longest_match_def)
qed

lemma find_longest_match_bounds:
  assumes "find_longest_match a b alo ahi blo bhi = (i, j, k)" and "k \<noteq> 0"
  shows "alo \<le> i \<and> i + k \<le> ahi \<and> blo \<le> j \<and> j + k \<le> bhi"
proof -
  have "alo < ahi \<and> blo < bhi"
    using find_longest_match_empty[of ahi alo bhi blo a b] assms by fastforce
  then have "in_window alo ahi blo bhi (find_longest_match a b alo ahi blo bhi)"
    by (intro find_longest_match_in_window) auto
  then show ?thesis using assms(1) by (simp add: in_window_def)
qed

lemma find_longest_match_shrinks:
  assumes "(x, y) = find_longest_match a b alo ahi blo bhi" and "(xa, ya) = y" and "ya \<noteq> 0"
  shows "alo \<le> x \<and> x + ya \<le> ahi"
  using find_longest_match_bounds[of a b alo ahi blo bhi x xa ya] assms by simp

termination matching_blocks
  apply (relation "measure (\<lambda>(a, b, alo, ahi, blo, bhi). ahi - alo)")
    apply simp
   apply (frule (2) find_longest_match_shrinks, fastforce)
  apply (frule (2) find_longest_match_shrinks, fastforce)
  done

declare matching_blocks.simps [simp del]

section \<open>Properties of the resolver\<close>

text \<open>What the loop over the roster leaves in its state.\<close>

lemma best_employee_sound:
  assumes "best_employee potential restaurant_name min_similarity roster st = (Some n, s, bi)"
  shows "st = (Some n, s, bi)
         \<or> (\<exists>key info. (key, info) \<in> set roster \<and> restaurant_name \<in> set (restaurants info)
               \<and> n = full_name info \<and> bi = Some info
               \<and> s = similarity_score potential (first_name info) \<and> min_similarity \<le> s)"
  using assms
proof (induction roster arbitrary: st)
  case Nil
  then show ?case by simp
next
  case (Cons entry roster)
  obtain key info where entry: "entry = (key, info)" by (cases entry)
  obtain bm bs binfo where st: "st = (bm, bs, binfo)" by (cases st)
  define score where "score = similarity_score potential (first_name info)"
  show ?case
  proof (cases "restaurant_name \<in> set (restaurants info)
                 \<and> bs < score \<and> min_similarity \<le> score")
    case True
    then have "best_employee potential restaurant_name min_similarity roster
                 (Some (full_name info), score, Some info) = (Some n, s, bi)"
      using Cons.prems entry st by (simp add: score_def Let_def)
    from Cons.IH[OF this] show ?thesis
      using True entry by (auto simp: score_def)
  next
    case False
    then have "best_employee potential restaurant_name min_similarity roster st = (Some n, s, bi)"
      using Cons.prems entry st by (auto simp: score_def Let_def split: if_splits)
    from Cons.IH[OF this] show ?thesis
      using entry by auto
  qed
qed

text \<open>Entries of other restaurants do not change the state.\<close>


lemma best_employee_filter:
  "best_employee potential restaurant_name min_similarity
     (filter (works_at restaurant_name) roster) st
   = best_employee potential restaurant_name min_similarity roster st"
proof (induction roster arbitrary: st)
  case Nil
  then show ?case by simp
next
  case (Cons entry roster)
  obtain key info where entry: "entry = (key, info)" by (cases entry)
  obtain bm bs binfo where st: "st = (bm, bs, binfo)" by (cases st)
  show ?case using Cons.IH entry st by (simp add: Let_def works_at_def)
qed

lemma match_names_filter:
  "match_names restaurant_name
     (filter (works_at restaurant_name) roster) min_similarity ns
   = match_names restaurant_name roster min_similarity ns"
  by (induction ns) (auto simp: best_employee_filter split: prod.splits option.splits)

lemma match_names_tokens:
  "map potential_name (match_names restaurant_name roster min_similarity ns)
   = filter (accepted restaurant_name roster min_similarity) ns"
  by (induction ns) (auto simp: accepted_def split: prod.splits option.splits)

lemma match_names_sound:
  assumes "m \<in> set (match_names restaurant_name roster min_similarity ns)"
  shows "potential_name m \<in> set ns \<and> lower (potential_name m) \<notin> set skip_words
         \<and> matched_employee m \<noteq> []
         \<and> (\<exists>key info. (key, info) \<in> set roster \<and> restaurant_name \<in> set (restaurants info)
               \<and> matched_employee m = full_name info
               \<and> confidence m = similarity_score (potential_name m) (first_name info)
               \<and> min_similarity \<le> confidence m)"
  using assms
proof (induction ns)
  case Nil
  then show ?case by simp
next
  case (Cons potential ns)
  show ?case
  proof (cases "m \<in> set (match_names restaurant_name roster min_similarity ns)")
    case True
    from Cons.IH[OF this] show ?thesis by auto
  next
    case False
    obtain bm s bi where
      best: "best_employee potential restaurant_name min_similarity roster (None, 0, None)
             = (bm, s, bi)"
      by (cases "best_employee potential restaurant_name min_similarity roster (None, 0, None)")
    have skip: "lower potential \<notin> set skip_words"
      using False Cons.prems by (auto split: if_splits)
    obtain n where bm: "bm = Some n"
      using False Cons.prems skip best by (cases bm) auto
    have n: "n \<noteq> []"
      using False Cons.prems skip best bm by (auto split: if_splits)
    have m: "m = \<lparr>potential_name = potential, matched_employee = n, confidence = s\<rparr>"
      using False Cons.prems skip best bm n by auto
    from best_employee_sound[OF best[unfolded bm]] m skip n show ?thesis by auto
  qed
qed

section \<open>Evaluations\<close>

lemma eval_jacob_margies:
  "match_employee_to_review remdups (Some ''Jacob was excellent tonight!'')
     ''Margie's Kitchen & Cocktails'' roster_two (4 / 5)
   = [\<lparr>potential_name = ''Jacob'', matched_employee = ''Jakob Jones'', confidence = 4 / 5\<rparr>]"
  by code_simp

lemma eval_jacob_the:
  "match_employee_to_review remdups (Some ''Jacob was great. The food was good'')
     ''Grackle'' roster_the (4 / 5)
   = [\<lparr>potential_name = ''Jacob'', matched_employee = ''Jacob Smith'', confidence = 1\<rparr>]"
  by code_simp

lemma eval_really:
  "match_employee_to_review remdups (Some ''Really is the best place'')
     ''Grackle'' roster_reilly (4 / 5)
   = [\<lparr>potential_name = ''Really'', matched_employee = ''Reilly Smith'', confidence = 5 / 6\<rparr>]"
  by code_simp

lemma eval_two_names: "potential_names ''jacob was kind. maria was helpful'' = [''jacob'', ''maria'']"
  by code_simp

lemma eval_two_names_reversed:
  "map potential_name
     (match_employee_to_review reversed_listing (Some ''jacob was kind. maria was helpful'')
        ''Grackle'' roster_jm (4 / 5))
   = [''maria'', ''jacob'']"
  by code_simp

lemma eval_jacob_similarity: "similarity_score ''Jacob'' ''Jacob'' = 1"
  by code_simp

section \<open>Claims about the resolver\<close>

text \<open>
  C1. With the default minimum similarity \<open>0.8\<close>, every result that
  \<open>match_employee_to_review\<close> returns has a confidence of at least \<open>0.8\<close>, for every text,
  restaurant and roster.
\<close>

theorem confidence_at_least_minimum:
  "\<forall>m \<in> set (match_employee_to_review so review_text restaurant_name employee_dict (4 / 5)).
     4 / 5 \<le> confidence m"
  unfolding match_employee_to_review_def using match_names_sound by blast

theorem confidence_at_least_minimum_witness:
  "\<lparr>potential_name = ''Jacob'', matched_employee = ''Jakob Jones'', confidence = 4 / 5\<rparr>
     \<in> set (match_employee_to_review remdups (Some ''Jacob was excellent tonight!'')
              ''Margie's Kitchen & Cocktails'' roster_two (4 / 5))
   \<and> (4 / 5 :: rat)
       \<le> confidence \<lparr>potential_name = ''Jacob'', matched_employee = ''Jakob Jones'',
                       confidence = 4 / 5\<rparr>"
proof -
  have mem: "\<lparr>potential_name = ''Jacob'', matched_employee = ''Jakob Jones'', confidence = 4 / 5\<rparr>
     \<in> set (match_employee_to_review remdups (Some ''Jacob was excellent tonight!'')
              ''Margie's Kitchen & Cocktails'' roster_two (4 / 5))"
    by (simp add: eval_jacob_margies)
  from confidence_at_least_minimum[THEN bspec, OF mem] mem show ?thesis by blast
qed

text \<open>
  C2. Every result of the resolver comes from a roster entry whose \<open>restaurants\<close> contain
  the queried restaurant, and the entries that do not contain it are skipped before
  scoring: the result is the one for the roster without them, whatever their first names.
\<close>

theorem only_entries_of_the_restaurant:
  "(\<forall>m \<in> set (match_employee_to_review so review_text restaurant_name employee_dict
                  min_similarity).
      \<exists>entry \<in> set employee_dict.
        works_at restaurant_name entry \<and> matched_employee m = full_name (snd entry)
        \<and> confidence m = similarity_score (potential_name m) (first_name (snd entry)))
   \<and> match_employee_to_review so review_text restaurant_name employee_dict min_similarity
     = match_employee_to_review so review_text restaurant_name
         (filter (works_at restaurant_name) employee_dict) min_similarity"
proof
  show "\<forall>m \<in> set (match_employee_to_review so review_text restaurant_name employee_dict
                  min_similarity).
      \<exists>entry \<in> set employee_dict.
        works_at restaurant_name entry \<and> matched_employee m = full_name (snd entry)
        \<and> confidence m = similarity_score (potential_name m) (first_name (snd entry))"
  proof
    fix m
    assume "m \<in> set (match_employee_to_review so review_text restaurant_name employee_dict
                  min_similarity)"
    then obtain key info where "(key, info) \<in> set employee_dict"
      "restaurant_name \<in> set (restaurants info)" "matched_employee m = full_name info"
      "confidence m = similarity_score (potential_name m) (first_name info)"
      unfolding match_employee_to_review_def using match_names_sound by blast
    then show "\<exists>entry \<in> set employee_dict.
        works_at restaurant_name entry \<and> matched_employee m = full_name (snd entry)
        \<and> confidence m = similarity_score (potential_name m) (first_name (snd entry))"
      by (intro bexI[of _ "(key, info)"]) (simp_all add: works_at_def)
  qed
  show "match_employee_to_review so review_text restaurant_name employee_dict min_similarity
     = match_employee_to_review so review_text restaurant_name
         (filter (works_at restaurant_name) employee_dict) min_similarity"
    by (simp add: match_employee_to_review_def match_names_filter)
qed

text \<open>
  At the second restaurant the candidate \<open>Jacob\<close> is matched to \<open>Jakob Jones\<close> with \<open>0.8\<close>,
  although \<open>Jacob Smith\<close> of the first restaurant scores \<open>1.0\<close>.
\<close>

theorem only_entries_of_the_restaurant_witness:
  "match_employee_to_review remdups (Some ''Jacob was excellent tonight!'')
     ''Margie's Kitchen & Cocktails'' roster_two (4 / 5)
   = match_employee_to_review remdups (Some ''Jacob was excellent tonight!'')
       ''Margie's Kitchen & Cocktails''
       (filter (works_at ''Margie's Kitchen & Cocktails'') roster_two) (4 / 5)
   \<and> match_employee_to_review remdups (Some ''Jacob was excellent tonight!'')
       ''Margie's Kitchen & Cocktails'' roster_two (4 / 5)
     = [\<lparr>potential_name = ''Jacob'', matched_employee = ''Jakob Jones'', confidence = 4 / 5\<rparr>]
   \<and> \<not> works_at ''Margie's Kitchen & Cocktails'' (hd roster_two)
   \<and> similarity_score ''Jacob'' (first_name (snd (hd roster_two))) = 1"
  using only_entries_of_the_restaurant[of remdups "Some ''Jacob was excellent tonight!''"
          "''Margie's Kitchen & Cocktails''" roster_two "4 / 5", THEN conjunct2]
        eval_jacob_margies eval_jacob_similarity
  by (simp add: roster_two_def works_at_def)

text \<open>
  C4, as the code has it. No result of the resolver has a candidate whose lowercase form
  is in the resolver's list of skipped words, whatever the roster. (A word that is only in
  the extractor's list, such as \<open>Really\<close>, is not excluded from what the contextual patterns
  capture.)
\<close>

theorem skipped_words_never_accepted:
  "\<forall>m \<in> set (match_employee_to_review so review_text restaurant_name employee_dict
                 min_similarity).
     lower (potential_name m) \<notin> set skip_words"
  unfolding match_employee_to_review_def using match_names_sound by blast

theorem skipped_words_never_accepted_witness:
  "match_employee_to_review remdups (Some ''Jacob was great. The food was good'')
     ''Grackle'' roster_the (4 / 5)
   = [\<lparr>potential_name = ''Jacob'', matched_employee = ''Jacob Smith'', confidence = 1\<rparr>]
   \<and> lower ''Jacob'' \<notin> set skip_words"
proof -
  have mem: "\<lparr>potential_name = ''Jacob'', matched_employee = ''Jacob Smith'', confidence = 1\<rparr>
     \<in> set (match_employee_to_review remdups (Some ''Jacob was great. The food was good'')
              ''Grackle'' roster_the (4 / 5))"
    by (simp add: eval_jacob_the)
  from skipped_words_never_accepted[THEN bspec, OF mem] eval_jacob_the show ?thesis by simp
qed

text \<open>
  C4 as stated fails: \<open>Really\<close> is in the extractor's list of common words, and the review
  \<open>Really is the best place\<close> gives the accepted candidate \<open>Really\<close>, matched to \<open>Reilly\<close>.
\<close>

theorem stop_listed_word_accepted:
  "match_employee_to_review remdups (Some ''Really is the best place'')
     ''Grackle'' roster_reilly (4 / 5)
   = [\<lparr>potential_name = ''Really'', matched_employee = ''Reilly Smith'', confidence = 5 / 6\<rparr>]
   \<and> ''Really'' \<in> set common_words"
  using eval_really by (simp add: common_words_def)

text \<open>
  C8, as the code has it. The candidates of the results are a subsequence of the list that
  the extractor returns, and no two results have the same candidate. The list that the
  extractor returns is in the iteration order of a set, not in the order of discovery.
\<close>

theorem results_follow_extractor_list:
  assumes "set_listing so (potential_names t)"
  shows "subseq (map potential_name
                   (match_employee_to_review so (Some t) restaurant_name employee_dict
                      min_similarity))
                (extract_potential_names so (Some t))
         \<and> distinct (map potential_name
                        (match_employee_to_review so (Some t) restaurant_name employee_dict
                           min_similarity))"
proof -
  have "distinct (extract_potential_names so (Some t))"
    using assms by (simp add: extract_potential_names_def set_listing_def)
  then show ?thesis
    by (simp add: match_employee_to_review_def match_names_tokens)
qed

theorem results_follow_extractor_list_witness:
  "set_listing reversed_listing (potential_names ''jacob was kind. maria was helpful'')
   \<and> subseq (map potential_name
               (match_employee_to_review reversed_listing
                  (Some ''jacob was kind. maria was helpful'') ''Grackle'' roster_jm (4 / 5)))
            (extract_potential_names reversed_listing
               (Some ''jacob was kind. maria was helpful''))
   \<and> distinct (map potential_name
                 (match_employee_to_review reversed_listing
                    (Some ''jacob was kind. maria was helpful'') ''Grackle'' roster_jm (4 / 5)))"
proof -
  have h: "set_listing reversed_listing (potential_names ''jacob was kind. maria was helpful'')"
    by (simp add: set_listing_def reversed_listing_def)
  from results_follow_extractor_list[OF h] h show ?thesis by blast
qed

text \<open>
  C8 as stated fails: the extractor finds \<open>jacob\<close> before \<open>maria\<close>, and with a set that
  iterates \<open>maria\<close> first the resolver returns \<open>maria\<close> before \<open>jacob\<close>.
\<close>

theorem discovery_order_not_kept:
  "potential_names ''jacob was kind. maria was helpful'' = [''jacob'', ''maria'']
   \<and> set_listing reversed_listing (potential_names ''jacob was kind. maria was helpful'')
   \<and> map potential_name
       (match_employee_to_review reversed_listing (Some ''jacob was kind. maria was helpful'')
          ''Grackle'' roster_jm (4 / 5))
     = [''maria'', ''jacob'']"
  using eval_two_names eval_two_names_reversed
  by (auto simp: set_listing_def reversed_listing_def)

section \<open>Properties of the extractor\<close>

lemma lit_at_bounds:
  "lit_at ic ds str pos = Some e \<Longrightarrow> pos \<le> length str \<Longrightarrow> pos \<le> e \<and> e \<le> length str"
proof (induction ds arbitrary: pos)
  case Nil
  then show ?case by simp
next
  case (Cons d ds)
  then have "lit_at ic ds str (Suc pos) = Some e" and "Suc pos \<le> length str"
    by (auto split: if_splits)
  from Cons.IH[OF this] show ?case by simp
qed

lemma run_len_le: "pos + run_len ic cs str pos \<le> max pos (length str)"
proof -
  have "run_len ic cs str pos \<le> length (drop pos str)"
    unfolding run_len_def by (rule length_takeWhile_le)
  then show ?thesis by simp
qed

text \<open>A match begun inside the text ends inside the text, not before its start.\<close>

lemma rmatch_bounds:
  "e \<in> set (rmatch ic r str pos) \<Longrightarrow> pos \<le> length str \<Longrightarrow> pos \<le> e \<and> e \<le> length str"
proof (induction r arbitrary: pos e)
  case (Lit ds)
  then show ?case using lit_at_bounds[of ic ds str pos e] by (auto split: option.splits)
next
  case (Cls cs)
  then show ?case by (auto split: if_splits)
next
  case (Rep cs n)
  then obtain d where "e = pos + d" and "d \<le> run_len ic cs str pos"
    by (auto simp: Let_def)
  then show ?case using run_len_le[of pos ic cs str] Rep.prems(2) by simp
next
  case WordB
  then show ?case by (auto split: if_splits)
next
  case (Seq r1 r2)
  from Seq.prems(1) obtain m where m: "m \<in> set (rmatch ic r1 str pos)"
    and e: "e \<in> set (rmatch ic r2 str m)" by auto
  from Seq.IH(1)[OF m Seq.prems(2)] have "pos \<le> m \<and> m \<le> length str" .
  moreover from this Seq.IH(2)[OF e] have "m \<le> e \<and> e \<le> length str" by simp
  ultimately show ?case by simp
next
  case (Alt r1 r2)
  then show ?case by auto
next
  case (Opt r)
  then show ?case by auto
qed

lemma word_re_length:
  "e \<in> set (rmatch False word_re str pos) \<Longrightarrow> pos + 3 \<le> e"
  by (auto simp: word_re_def Let_def split: if_splits)

lemma match_at_parts:
  assumes "match_at ic (pre, grp, post) str pos = Some (s, e, gs, ge)"
  shows "s = pos \<and> gs \<in> set (rmatch ic pre str pos) \<and> ge \<in> set (rmatch ic grp str gs)
         \<and> e \<in> set (rmatch ic post str ge)"
proof -
  define ms where "ms = concat (map (\<lambda>gs. concat (map (\<lambda>ge. map (\<lambda>e. (pos, e, gs, ge))
                                                     (rmatch ic post str ge))
                                           (rmatch ic grp str gs)))
                          (rmatch ic pre str pos))"
  have "match_at ic (pre, grp, post) str pos = (case ms of [] \<Rightarrow> None | m # _ \<Rightarrow> Some m)"
    by (simp add: match_at_def ms_def)
  with assms have "\<exists>rest. ms = (s, e, gs, ge) # rest"
    by (cases ms) simp_all
  then have "(s, e, gs, ge) \<in> set ms" by auto
  then show ?thesis unfolding ms_def by auto
qed

lemma finditer_sound:
  "m \<in> set (finditer ic p str pos) \<Longrightarrow>
   \<exists>pos'. pos' \<le> length str \<and> match_at ic p str pos' = Some m"
proof (induction ic p str pos rule: finditer.induct)
  case (1 ic p str pos)
  show ?case
  proof (cases "length str < pos")
    case True
    with "1.prems" show ?thesis by (subst (asm) finditer.simps) simp
  next
    case inside: False
    show ?thesis
    proof (cases "match_at ic p str pos")
      case None
      with "1.prems" inside have "m \<in> set (finditer ic p str (Suc pos))"
        by (subst (asm) finditer.simps) simp
      from "1.IH"(1)[OF inside None this] show ?thesis .
    next
      case (Some found)
      obtain s e gs ge where found: "found = (s, e, gs, ge)" by (cases found)
      from "1.prems" inside Some found
      have "m = (s, e, gs, ge)
            \<or> m \<in> set (finditer ic p str (if pos < e then e else Suc pos))"
        by (subst (asm) finditer.simps) (simp split: if_splits)
      then show ?thesis
      proof
        assume "m = (s, e, gs, ge)"
        then show ?thesis using Some found inside by (intro exI[of _ pos]) simp
      next
        assume "m \<in> set (finditer ic p str (if pos < e then e else Suc pos))"
        from "1.IH"(2)[OF inside Some[unfolded found] refl refl refl this] show ?thesis .
      qed
    qed
  qed
qed

lemma slice_sublist: "sublist (slice str s e) str"
proof -
  have "sublist (take (e - s) (drop s str)) (drop s str)" by simp
  moreover have "sublist (drop s str) str" by simp
  ultimately show ?thesis unfolding slice_def by (rule sublist_order.order.trans)
qed

lemma strip_sublist: "sublist (strip x) x"
proof -
  have "sublist (dropWhile is_space (rev (dropWhile is_space x))) (rev (dropWhile is_space x))"
    by simp
  then have "sublist (strip x) (dropWhile is_space x)"
    unfolding strip_def by (simp add: sublist_rev_left)
  moreover have "sublist (dropWhile is_space x) x" by simp
  ultimately show ?thesis by (rule sublist_order.order.trans)
qed

lemma findall_word:
  assumes "w \<in> set (findall False word_re str)"
  shows "3 \<le> length w \<and> sublist w str"
proof -
  from assms obtain m where m: "m \<in> set (finditer False (Lit [], word_re, Lit []) str 0)"
    and w: "w = group0 str m" by (auto simp: findall_def)
  obtain s e gs ge where parts: "m = (s, e, gs, ge)" by (cases m)
  from finditer_sound[OF m] obtain pos' where pos': "pos' \<le> length str"
    and "match_at False (Lit [], word_re, Lit []) str pos' = Some (s, e, gs, ge)"
    using parts by auto
  from match_at_parts[OF this(2)]
  have "s = pos'" "gs = pos'" "ge \<in> set (rmatch False word_re str gs)" "e = ge" by auto
  with word_re_length[of ge str gs] rmatch_bounds[of ge False word_re str gs] pos'
  have "s + 3 \<le> e" "e \<le> length str" by auto
  then have "3 \<le> length (slice str s e)" by (simp add: slice_def)
  then show ?thesis using w parts slice_sublist by (simp add: group0_def)
qed

lemma pattern_names_ok:
  assumes "n \<in> set (pattern_names p str)"
  shows "3 \<le> length n \<and> sublist n str"
proof -
  from assms obtain m where "n = strip (group1 str m)" and len: "3 \<le> length n"
    by (auto simp: pattern_names_def)
  moreover obtain s e gs ge where "m = (s, e, gs, ge)" by (cases m)
  ultimately have "n = strip (slice str gs ge)" by (simp add: group1_def)
  then have "sublist n str"
    using strip_sublist[of "slice str gs ge"] slice_sublist[of str gs ge]
    by (auto intro: sublist_order.order.trans)
  with len show ?thesis by simp
qed

lemma potential_names_ok:
  "n \<in> set (potential_names str) \<Longrightarrow> 3 \<le> length n \<and> sublist n str"
  unfolding potential_names_def using pattern_names_ok findall_word by auto

lemma eval_the_food:
  "potential_names ''The food and service were great'' = [''The'']"
  by code_simp

lemma listing_of_one:
  assumes "set_listing so [x]"
  shows "so [x] = [x]"
proof -
  from assms have d: "distinct (so [x])" and s: "set (so [x]) = {x}"
    by (simp_all add: set_listing_def)
  show ?thesis
  proof (cases "so [x]")
    case Nil
    with s show ?thesis by simp
  next
    case (Cons y ys)
    with d s have "y = x" and "set ys \<subseteq> {x}" and "x \<notin> set ys" by auto
    then have "ys = []" by (cases ys) auto
    with Cons \<open>y = x\<close> show ?thesis by simp
  qed
qed

section \<open>Claims about the extractor\<close>

text \<open>
  C6. For a missing or empty str the extractor returns the empty list, and for every
  str each token that it returns has at least three characters and occurs in the str as
  a contiguous substring, character for character.
\<close>

theorem tokens_are_substrings:
  "extract_potential_names so None = [] \<and> extract_potential_names so (Some []) = []
   \<and> (set_listing so (potential_names t) \<longrightarrow>
        (\<forall>n \<in> set (extract_potential_names so (Some t)). 3 \<le> length n \<and> sublist n t))"
  using potential_names_ok[of _ t]
  by (auto simp: extract_potential_names_def set_listing_def)

theorem tokens_are_substrings_witness:
  "set_listing remdups (potential_names ''Jacob was excellent tonight!'')
   \<and> ''Jacob'' \<in> set (extract_potential_names remdups (Some ''Jacob was excellent tonight!''))
   \<and> 3 \<le> length ''Jacob'' \<and> sublist ''Jacob'' ''Jacob was excellent tonight!''"
proof -
  have h: "set_listing remdups (potential_names ''Jacob was excellent tonight!'')"
    by (simp add: set_listing_def)
  have mem: "''Jacob'' \<in> set (extract_potential_names remdups
                                 (Some ''Jacob was excellent tonight!''))"
    by code_simp
  from tokens_are_substrings[of remdups "''Jacob was excellent tonight!''",
         THEN conjunct2, THEN conjunct2, THEN mp, OF h, THEN bspec, OF mem] h mem
  show ?thesis by blast
qed

text \<open>
  C5. On the comment \<open>The food and service were great\<close> the extractor returns the candidate
  \<open>The\<close>, not the empty list: the scan for capitalized words looks each word up in
  lowercase in a list of capitalized words, so no word is excluded. The resolver then
  skips \<open>the\<close>, and the review has no match.
\<close>

theorem the_is_extracted:
  assumes "set_listing so [''The'']"
  shows "extract_potential_names so (Some ''The food and service were great'') = [''The'']
         \<and> match_employee_to_review so (Some ''The food and service were great'')
             restaurant_name employee_dict min_similarity = []"
proof -
  have ex: "extract_potential_names so (Some ''The food and service were great'') = [''The'']"
    using listing_of_one[OF assms] by (simp add: extract_potential_names_def eval_the_food)
  have "lower ''The'' \<in> set skip_words" by code_simp
  then show ?thesis using ex by (simp add: match_employee_to_review_def)
qed

theorem the_is_extracted_witness:
  "set_listing remdups [''The'']
   \<and> extract_potential_names remdups (Some ''The food and service were great'') = [''The'']
   \<and> match_employee_to_review remdups (Some ''The food and service were great'')
       ''Grackle'' roster_the (4 / 5) = []"
proof -
  have h: "set_listing remdups [''The'']" by (simp add: set_listing_def)
  from the_is_extracted[OF h] h show ?thesis by blast
qed

section \<open>Properties of the similarity ratio\<close>

lemma matching_blocks_total:
  "alo \<le> ahi \<Longrightarrow> blo \<le> bhi \<Longrightarrow>
   sum_list (map (\<lambda>(i, j, k). k) (matching_blocks a b alo ahi blo bhi))
     \<le> min (ahi - alo) (bhi - blo)"
proof (induction a b alo ahi blo bhi rule: matching_blocks.induct)
  case (1 a b alo ahi blo bhi)
  obtain i j k where flm: "find_longest_match a b alo ahi blo bhi = (i, j, k)"
    by (cases "find_longest_match a b alo ahi blo bhi")
  show ?case
  proof (cases "k = 0")
    case True
    then show ?thesis using flm by (subst matching_blocks.simps) simp
  next
    case False
    from find_longest_match_bounds[OF flm False]
    have b: "alo \<le> i" "i + k \<le> ahi" "blo \<le> j" "j + k \<le> bhi" by auto
    define left where
      "left = (if alo < i \<and> blo < j then matching_blocks a b alo i blo j else [])"
    define right where
      "right = (if i + k < ahi \<and> j + k < bhi then matching_blocks a b (i + k) ahi (j + k) bhi
                else [])"
    have l: "sum_list (map (\<lambda>(i, j, k). k) left) \<le> min (i - alo) (j - blo)"
      unfolding left_def using "1.IH"(1)[OF flm[symmetric] refl False] by auto
    have r: "sum_list (map (\<lambda>(i, j, k). k) right) \<le> min (ahi - (i + k)) (bhi - (j + k))"
      unfolding right_def using "1.IH"(2)[OF flm[symmetric] refl False] by auto
    have "matching_blocks a b alo ahi blo bhi = left @ [(i, j, k)] @ right"
      unfolding left_def right_def using flm False by (subst matching_blocks.simps) simp
    then have "sum_list (map (\<lambda>(i, j, k). k) (matching_blocks a b alo ahi blo bhi))
               = sum_list (map (\<lambda>(i, j, k). k) left) + k
                 + sum_list (map (\<lambda>(i, j, k). k) right)"
      by simp
    moreover have "sum_list (map (\<lambda>(i, j, k). k) left) + k
                   + sum_list (map (\<lambda>(i, j, k). k) right) \<le> min (ahi - alo) (bhi - blo)"
      using l r b by arith
    ultimately show ?thesis by simp
  qed
qed

lemma ratio_bounds: "0 \<le> ratio a b \<and> ratio a b \<le> 1"
proof -
  define m where "m = sum_list (map (\<lambda>(i, j, k). k)
                                     (matching_blocks a b 0 (length a) 0 (length b)))"
  have "m \<le> min (length a) (length b)"
    unfolding m_def using matching_blocks_total[of 0 "length a" 0 "length b" a b] by simp
  then have "2 * m \<le> length a + length b" by simp
  then have "2 * (of_nat m :: rat) \<le> of_nat (length a + length b)"
    by (metis of_nat_le_iff of_nat_mult of_nat_numeral)
  then show ?thesis
    unfolding ratio_def m_def[symmetric] Let_def
    by (auto simp: divide_le_eq_1 simp del: of_nat_add)
qed

lemma ratio_empty_left: "ratio [] b = (if b = [] then 1 else 0)"
proof -
  have "matching_blocks [] b 0 0 0 (length b) = []"
    by (subst matching_blocks.simps) (simp add: find_longest_match_empty)
  then show ?thesis by (simp add: ratio_def)
qed

lemma ratio_empty_right: "ratio a [] = (if a = [] then 1 else 0)"
proof -
  have "matching_blocks a [] 0 (length a) 0 0 = []"
    by (subst matching_blocks.simps) (simp add: find_longest_match_empty)
  then show ?thesis by (simp add: ratio_def)
qed

lemma eval_tide_diet: "similarity_score ''tide'' ''diet'' = 1 / 4"
  by code_simp

lemma eval_diet_tide: "similarity_score ''diet'' ''tide'' = 1 / 2"
  by code_simp

lemma eval_jacob_upper: "similarity_score ''Jacob'' ''JACOB'' = 1"
  by code_simp

lemma eval_lower_jacob: "lower ''Jacob'' = lower ''JACOB''"
  by code_simp

section \<open>Claims about the similarity\<close>

text \<open>
  C7 as stated fails: the block search prefers the block that starts earliest in its first
  argument, and \<open>similarity_score\<close> gives \<open>0.25\<close> for \<open>tide\<close>, \<open>diet\<close> and \<open>0.5\<close> for \<open>diet\<close>,
  \<open>tide\<close>.
\<close>

theorem similarity_not_symmetric:
  "similarity_score ''tide'' ''diet'' = 1 / 4 \<and> similarity_score ''diet'' ''tide'' = 1 / 2"
  using eval_tide_diet eval_diet_tide by simp

text \<open>
  C7, as the code has it. The two orders of the arguments give the same score when the
  strings are equal up to case or when one of them is empty, and every score is between
  0 and 1.
\<close>

theorem similarity_symmetric_cases:
  "(lower a = lower b \<or> a = [] \<or> b = [] \<longrightarrow> similarity_score a b = similarity_score b a)
   \<and> 0 \<le> similarity_score a b \<and> similarity_score a b \<le> 1"
proof -
  have "similarity_score a b = similarity_score b a" if "lower a = lower b \<or> a = [] \<or> b = []"
    using that
    by (auto simp: similarity_score_def lower_def ratio_empty_left ratio_empty_right)
  then show ?thesis using ratio_bounds by (auto simp: similarity_score_def)
qed

theorem similarity_symmetric_cases_witness:
  "lower ''Jacob'' = lower ''JACOB''
   \<and> similarity_score ''Jacob'' ''JACOB'' = similarity_score ''JACOB'' ''Jacob''
   \<and> similarity_score ''Jacob'' ''JACOB'' = 1"
proof -
  have h: "lower ''Jacob'' = lower ''JACOB'' \<or> ''Jacob'' = [] \<or> ''JACOB'' = []"
    using eval_lower_jacob by simp
  from similarity_symmetric_cases[of "''Jacob''" "''JACOB''", THEN conjunct1, THEN mp, OF h]
    eval_lower_jacob eval_jacob_upper
  show ?thesis by simp
qed

section \<open>Properties of the annotation pass\<close>

lemma annotate_row_update:
  "annotate_row so employee_dict df acc idx
   = acc[idx := annotated so employee_dict (df ! idx) (acc ! idx)]"
  by (simp add: annotate_row_def annotated_def Let_def)

lemma foldl_annotate_row:
  assumes "distinct idxs"
  shows "length (foldl (annotate_row so employee_dict df) acc idxs) = length acc
         \<and> (\<forall>i < length acc.
               foldl (annotate_row so employee_dict df) acc idxs ! i
               = (if i \<in> set idxs then annotated so employee_dict (df ! i) (acc ! i)
                  else acc ! i))"
  using assms
proof (induction idxs arbitrary: acc)
  case Nil
  then show ?case by simp
next
  case (Cons idx idxs)
  define acc' where "acc' = annotate_row so employee_dict df acc idx"
  have len: "length acc' = length acc"
    by (simp add: acc'_def annotate_row_update)
  have nth: "acc' ! i = (if i = idx then annotated so employee_dict (df ! idx) (acc ! idx)
                         else acc ! i)" if "i < length acc" for i
    using that by (simp add: acc'_def annotate_row_update nth_list_update)
  from Cons.prems have d: "distinct idxs" and notin: "idx \<notin> set idxs" by simp_all
  from Cons.IH[OF d, of acc'] len nth notin show ?case
    by (auto simp: acc'_def[symmetric])
qed

lemma join_nonempty:
  "xs \<noteq> [] \<Longrightarrow> hd xs \<noteq> [] \<Longrightarrow> join sep xs \<noteq> []"
  by (induction sep xs rule: join.induct) simp_all

lemma format_2f_nonempty: "format_2f x \<noteq> []"
  by (simp add: format_2f_def Let_def)

lemma set_listing_remdups: "set_listing remdups xs"
  by (simp add: set_listing_def)

text \<open>The row of the result at an index, for a roster that is not empty.\<close>

lemma add_employee_matches_row:
  assumes "employee_dict \<noteq> []" and "i < length df"
  shows "add_employee_matches_to_dataframe so six_months_ago df employee_dict ! i
         = (let blank = (df ! i)\<lparr>mentioned_employees := Some [], employee_matches := Some [],
                                 employee_confidence := Some []\<rparr>
            in if recent six_months_ago (df ! i)
               then annotated so employee_dict (df ! i) blank else blank)"
proof -
  define idxs where "idxs = filter (\<lambda>idx. recent six_months_ago (df ! idx)) [0..<length df]"
  define df1 where "df1 = map (\<lambda>row. row\<lparr>mentioned_employees := Some [],
                                        employee_matches := Some [],
                                        employee_confidence := Some []\<rparr>) df"
  have "distinct idxs" by (simp add: idxs_def)
  from foldl_annotate_row[OF this, of so employee_dict df df1] assms(2)
  have "foldl (annotate_row so employee_dict df) df1 idxs ! i
        = (if i \<in> set idxs then annotated so employee_dict (df ! i) (df1 ! i) else df1 ! i)"
    by (simp add: df1_def)
  moreover have "i \<in> set idxs \<longleftrightarrow> recent six_months_ago (df ! i)"
    using assms(2) by (simp add: idxs_def)
  moreover have "add_employee_matches_to_dataframe so six_months_ago df employee_dict
                 = foldl (annotate_row so employee_dict df) df1 idxs"
    using assms(1) by (simp add: add_employee_matches_to_dataframe_def idxs_def df1_def)
  ultimately show ?thesis using assms(2) by (simp add: df1_def Let_def)
qed

lemma potential_name_nonempty:
  assumes "\<And>t. review_text = Some t \<Longrightarrow> set_listing so (potential_names t)"
    and "m \<in> set (match_employee_to_review so review_text restaurant_name employee_dict
                     min_similarity)"
  shows "potential_name m \<noteq> []"
proof -
  from assms(2) have mem: "potential_name m \<in> set (extract_potential_names so review_text)"
    unfolding match_employee_to_review_def using match_names_sound by blast
  then obtain t where t: "review_text = Some t" and "t \<noteq> []"
    and "potential_name m \<in> set (so (potential_names t))"
    by (auto simp: extract_potential_names_def split: option.splits if_splits)
  with assms(1)[OF t] have "potential_name m \<in> set (potential_names t)"
    by (simp add: set_listing_def)
  from potential_names_ok[OF this] show ?thesis by auto
qed

lemma eval_jacob_grackle:
  "match_employee_to_review remdups (Some ''Jacob was excellent tonight!'')
     ''Grackle'' roster_two (4 / 5)
   = [\<lparr>potential_name = ''Jacob'', matched_employee = ''Jacob Smith'', confidence = 1\<rparr>]"
  by code_simp

lemma eval_format_one: "format_2f 1 = ''1.00''"
  by code_simp

section \<open>Claims about the annotation pass\<close>

text \<open>
  C3. With a roster that is not empty, every row of the result has the three fields, and
  they are the joins with \<open>; \<close> of three lists that are read off the same list of matches
  (the matches of the row when it is recent, none otherwise), so of the same length and
  aligned by position. With no match all three are the empty string, and with a match none
  of them is.
\<close>

lemma annotation_fields:
  assumes "employee_dict \<noteq> []" and "i < length df"
    and "\<And>t. comment (df ! i) = Some t \<Longrightarrow> set_listing so (potential_names t)"
    and out: "out = add_employee_matches_to_dataframe so six_months_ago df employee_dict ! i"
    and ms: "ms = (if recent six_months_ago (df ! i)
               then match_employee_to_review so (comment (df ! i)) (restaurant (df ! i))
                      employee_dict (4 / 5)
               else [])"
  shows "mentioned_employees out = Some (join ''; '' (map potential_name ms))
         \<and> employee_matches out = Some (join ''; '' (map matched_employee ms))
         \<and> employee_confidence out = Some (join ''; '' (map (\<lambda>m. format_2f (confidence m)) ms))
         \<and> (if ms = []
            then mentioned_employees out = Some [] \<and> employee_matches out = Some []
                 \<and> employee_confidence out = Some []
            else mentioned_employees out \<noteq> Some [] \<and> employee_matches out \<noteq> Some []
                 \<and> employee_confidence out \<noteq> Some [])"
proof -
  have fields: "mentioned_employees out = Some (join ''; '' (map potential_name ms))
         \<and> employee_matches out = Some (join ''; '' (map matched_employee ms))
         \<and> employee_confidence out = Some (join ''; '' (map (\<lambda>m. format_2f (confidence m)) ms))"
    unfolding out ms add_employee_matches_row[OF assms(1,2)]
    by (simp add: annotated_def Let_def)
  have nonempty: "join ''; '' (map potential_name ms) \<noteq> []
                  \<and> join ''; '' (map matched_employee ms) \<noteq> []
                  \<and> join ''; '' (map (\<lambda>m. format_2f (confidence m)) ms) \<noteq> []"
    if "ms \<noteq> []"
  proof -
    from that have ms': "ms = match_employee_to_review so (comment (df ! i)) (restaurant (df ! i))
                      employee_dict (4 / 5)"
      by (auto simp: ms split: if_splits)
    from that have hd_in: "hd ms \<in> set ms" by simp
    have "potential_name (hd ms) \<noteq> []"
      using potential_name_nonempty[OF assms(3)] hd_in unfolding ms' by blast
    moreover have "matched_employee (hd ms) \<noteq> []"
      using hd_in unfolding ms' match_employee_to_review_def using match_names_sound by blast
    ultimately show ?thesis
      using that by (intro conjI join_nonempty) (simp_all add: hd_map format_2f_nonempty)
  qed
  show ?thesis using fields nonempty by (cases "ms = []") simp_all
qed

theorem annotation_fields_aligned:
  assumes "employee_dict \<noteq> []" and "i < length df"
    and "\<And>t. comment (df ! i) = Some t \<Longrightarrow> set_listing so (potential_names t)"
  shows "let out = add_employee_matches_to_dataframe so six_months_ago df employee_dict ! i;
             ms = (if recent six_months_ago (df ! i)
                   then match_employee_to_review so (comment (df ! i)) (restaurant (df ! i))
                          employee_dict (4 / 5)
                   else [])
         in mentioned_employees out = Some (join ''; '' (map potential_name ms))
            \<and> employee_matches out = Some (join ''; '' (map matched_employee ms))
            \<and> employee_confidence out
                = Some (join ''; '' (map (\<lambda>m. format_2f (confidence m)) ms))
            \<and> length (map potential_name ms) = length (map matched_employee ms)
            \<and> length (map matched_employee ms)
                = length (map (\<lambda>m. format_2f (confidence m)) ms)
            \<and> (if ms = []
               then mentioned_employees out = Some [] \<and> employee_matches out = Some []
                    \<and> employee_confidence out = Some []
               else mentioned_employees out \<noteq> Some [] \<and> employee_matches out \<noteq> Some []
                    \<and> employee_confidence out \<noteq> Some [])"
proof -
  define out where
    "out = add_employee_matches_to_dataframe so six_months_ago df employee_dict ! i"
  define ms where
    "ms = (if recent six_months_ago (df ! i)
           then match_employee_to_review so (comment (df ! i)) (restaurant (df ! i))
                  employee_dict (4 / 5)
           else [])"
  have "length (map potential_name ms) = length (map matched_employee ms)
        \<and> length (map matched_employee ms)
            = length (map (\<lambda>m. format_2f (confidence m)) ms)"
    by simp
  with annotation_fields[OF assms out_def ms_def]
  show ?thesis unfolding Let_def out_def[symmetric] ms_def[symmetric] by blast
qed

theorem annotation_fields_aligned_witness:
  "roster_two \<noteq> [] \<and> 0 < length [review_jacob]
   \<and> set_listing remdups (potential_names ''Jacob was excellent tonight!'')
   \<and> recent 100 review_jacob
   \<and> mentioned_employees (add_employee_matches_to_dataframe remdups 100 [review_jacob]
                            roster_two ! 0) = Some ''Jacob''
   \<and> employee_matches (add_employee_matches_to_dataframe remdups 100 [review_jacob]
                         roster_two ! 0) = Some ''Jacob Smith''
   \<and> employee_confidence (add_employee_matches_to_dataframe remdups 100 [review_jacob]
                            roster_two ! 0) = Some ''1.00''"
proof -
  have h1: "roster_two \<noteq> []" by (simp add: roster_two_def)
  have h2: "0 < length [review_jacob]" by simp
  have h3: "\<And>t. comment ([review_jacob] ! 0) = Some t \<Longrightarrow> set_listing remdups (potential_names t)"
    by (rule set_listing_remdups)
  have r: "recent 100 review_jacob" by (simp add: recent_def review_jacob_def)
  have c: "comment review_jacob = Some ''Jacob was excellent tonight!''"
    and g: "restaurant review_jacob = ''Grackle''" by (simp_all add: review_jacob_def)
  have nth: "[review_jacob] ! 0 = review_jacob" by simp
  have ms: "(if recent 100 review_jacob
             then match_employee_to_review remdups (comment review_jacob)
                    (restaurant review_jacob) roster_two (4 / 5)
             else [])
            = [\<lparr>potential_name = ''Jacob'', matched_employee = ''Jacob Smith'',
                 confidence = 1\<rparr>]"
    using r by (simp add: c g eval_jacob_grackle)
  note fields = annotation_fields_aligned[OF h1 h2 h3, of 100, unfolded Let_def nth ms]
  have "mentioned_employees (add_employee_matches_to_dataframe remdups 100 [review_jacob]
                               roster_two ! 0) = Some ''Jacob''"
    using fields[THEN conjunct1] by simp
  moreover have "employee_matches (add_employee_matches_to_dataframe remdups 100 [review_jacob]
                                     roster_two ! 0) = Some ''Jacob Smith''"
    using fields[THEN conjunct2, THEN conjunct1] by simp
  moreover have "employee_confidence (add_employee_matches_to_dataframe remdups 100
                                        [review_jacob] roster_two ! 0) = Some ''1.00''"
    using fields[THEN conjunct2, THEN conjunct2, THEN conjunct1] by (simp add: eval_format_one)
  ultimately show ?thesis using h1 r set_listing_remdups by simp
qed

text \<open>
  C9, as the code has it. With an empty roster the pass returns the table as it is: no
  column is added.
\<close>

theorem empty_roster_returns_table:
  "add_employee_matches_to_dataframe so six_months_ago df [] = df"
  by (simp add: add_employee_matches_to_dataframe_def)

text \<open>
  C9 as stated fails: the rows of a table without the three columns do not have them
  after the pass with an empty roster.
\<close>

theorem empty_roster_adds_no_fields:
  "map mentioned_employees (add_employee_matches_to_dataframe remdups 100 [review_jacob] [])
     = [None]
   \<and> map employee_matches (add_employee_matches_to_dataframe remdups 100 [review_jacob] [])
     = [None]
   \<and> map employee_confidence (add_employee_matches_to_dataframe remdups 100 [review_jacob] [])
     = [None]"
  by (simp add: add_employee_matches_to_dataframe_def review_jacob_def)

section \<open>The two copies of the matching core\<close>

lemma pt_similarity_score_eq: "pt_similarity_score = similarity_score"
  by (intro ext) (simp add: pt_similarity_score_def similarity_score_def)

lemma pt_patterns_eq: "pt_patterns = patterns"
  by (simp add: pt_patterns_def patterns_def)

lemma pt_common_words_eq: "pt_common_words = common_words"
  by (simp add: pt_common_words_def common_words_def)

lemma pt_skip_words_eq: "pt_skip_words = skip_words"
  by (simp add: pt_skip_words_def skip_words_def)

lemma pt_potential_names_eq: "pt_potential_names t = potential_names t"
  by (simp add: pt_potential_names_def potential_names_def pt_pattern_names_def
      pattern_names_def pt_patterns_eq pt_common_words_eq)

lemma pt_extract_potential_names_eq:
  "pt_extract_potential_names so review_text = extract_potential_names so review_text"
  by (simp add: pt_extract_potential_names_def extract_potential_names_def
      pt_potential_names_eq split: option.splits)

lemma pt_best_employee_eq:
  "pt_best_employee potential restaurant_name min_similarity roster st
   = best_employee potential restaurant_name min_similarity roster st"
proof (induction roster arbitrary: st)
  case Nil
  then show ?case by simp
next
  case (Cons entry roster)
  obtain key info where entry: "entry = (key, info)" by (cases entry)
  obtain bm bs binfo where st: "st = (bm, bs, binfo)" by (cases st)
  show ?case using Cons.IH by (simp add: entry st pt_similarity_score_eq Let_def)
qed

lemma pt_match_names_eq:
  "pt_match_names restaurant_name roster min_similarity ns
   = match_names restaurant_name roster min_similarity ns"
  by (induction ns)
     (simp_all add: pt_best_employee_eq pt_skip_words_eq split: prod.splits option.splits)

text \<open>
  C10. The three functions of \<open>process_takeout.py\<close> return what the functions of the same
  names of \<open>create_dataset.py\<close> return, on every input (and for the same order of the set
  of candidates).
\<close>

theorem matching_cores_equal:
  "pt_similarity_score a b = similarity_score a b
   \<and> pt_extract_potential_names so review_text = extract_potential_names so review_text
   \<and> pt_match_employee_to_review so review_text restaurant_name employee_dict min_similarity
     = match_employee_to_review so review_text restaurant_name employee_dict min_similarity"
  by (simp add: pt_similarity_score_eq pt_extract_potential_names_eq pt_match_names_eq
      pt_match_employee_to_review_def match_employee_to_review_def)

end
